theory Spec2Isabelle
  imports Complex_Main
begin

section \<open>The cafe database\<close>

text \<open>
  The program keeps four SQLite tables (\<open>init_db\<close>). A table is the list of its rows in
  rowid order, with the counter that \<open>AUTOINCREMENT\<close> keeps for it
  (\<open>sqlite_sequence\<close>): an insert takes the counter plus one as the new id.

  Prices and totals are \<open>REAL\<close> columns holding Python floats. Their type is the
  parameter \<open>'p\<close> and their arithmetic is a parameter too (\<open>'p arith\<close>), so nothing
  proved below depends on laws that floating point arithmetic does not have.
  \<open>INTEGER\<close> columns hold Python's unbounded integers (\<open>int\<close>); the 64-bit range of
  SQLite's integers is not modelled.
\<close>

record 'p menu_item =
  mi_id :: int
  mi_name :: string
  mi_description :: string
  mi_price :: 'p
  mi_sku :: string
  mi_active :: int

record inventory_row =
  inv_id :: int
  inv_sku :: string
  inv_quantity :: int

record 'p order_row =
  o_id :: int
  o_created_at :: string
  o_total :: 'p

record 'p order_item =
  oi_id :: int
  oi_order_id :: int
  oi_menu_item_id :: int
  oi_qty :: int
  oi_price :: 'p

record 'p database =
  menu_items :: "'p menu_item list"
  menu_items_seq :: int
  inventory :: "inventory_row list"
  inventory_seq :: int
  orders :: "'p order_row list"
  orders_seq :: int
  order_items :: "'p order_item list"
  order_items_seq :: int

text \<open>The tables as \<open>init_db\<close> creates them.\<close>

definition init_db :: "'p database" where
  "init_db = \<lparr>menu_items = [], menu_items_seq = 0, inventory = [], inventory_seq = 0,
              orders = [], orders_seq = 0, order_items = [], order_items_seq = 0\<rparr>"

text \<open>
  The arithmetic on prices: \<open>0.0\<close>, float addition (\<open>total += subtotal\<close>) and the
  product of an integer quantity with a price (\<open>qty * m['price']\<close>).
\<close>

record 'p arith =
  fzero :: 'p
  fadd :: "'p \<Rightarrow> 'p \<Rightarrow> 'p"
  fmul :: "int \<Rightarrow> 'p \<Rightarrow> 'p"

definition exact :: "real arith" where
  "exact = \<lparr>fzero = 0, fadd = (\<lambda>a b. a + b), fmul = (\<lambda>q p. of_int q * p)\<rparr>"

section \<open>Statements and the connection\<close>

datatype py_error = IntegrityError | OperationalError | ValueError | BadRequestKeyError

text \<open>
  The SQL statements that the program passes to \<open>execute_db\<close>, one constructor for each
  statement text, with the statement's arguments in the order of its placeholders.
\<close>

datatype 'p stmt =
    InsertMenuItem string string 'p string int
  | InsertOrIgnoreInventory string int
  | InsertOrReplaceInventory string int
  | InsertOrder string 'p
  | InsertOrderItem int int int 'p
  | DecrementInventory int string
  | UpdateMenuItem string string 'p string int int
  | DeleteMenuItem int

text \<open>
  What a statement does to the tables, and the \<open>lastrowid\<close> it leaves (0 where the
  program never reads it). \<open>menu_items.sku\<close> and \<open>inventory.sku\<close> are \<open>UNIQUE\<close>: an
  insert or update of a menu item that would repeat a stock key raises
  \<open>IntegrityError\<close> and changes nothing. Foreign keys are declared but SQLite does
  not enforce them unless asked to, and the program never asks.
\<close>

fun exec :: "'p stmt \<Rightarrow> 'p database \<Rightarrow> py_error + (int \<times> 'p database)" where
  "exec (InsertMenuItem n d p s a) db =
     (if s \<in> set (map mi_sku (menu_items db)) then Inl IntegrityError
      else let i = menu_items_seq db + 1 in
        Inr (i, db\<lparr>menu_items := menu_items db @
                 [\<lparr>mi_id = i, mi_name = n, mi_description = d, mi_price = p,
                   mi_sku = s, mi_active = a\<rparr>],
               menu_items_seq := i\<rparr>))"
| "exec (InsertOrIgnoreInventory s q) db =
     (if s \<in> set (map inv_sku (inventory db)) then Inr (0, db)
      else let i = inventory_seq db + 1 in
        Inr (i, db\<lparr>inventory := inventory db @
                 [\<lparr>inv_id = i, inv_sku = s, inv_quantity = q\<rparr>],
               inventory_seq := i\<rparr>))"
| "exec (InsertOrReplaceInventory s q) db =
     (let i = inventory_seq db + 1 in
        Inr (i, db\<lparr>inventory := filter (\<lambda>r. inv_sku r \<noteq> s) (inventory db) @
                 [\<lparr>inv_id = i, inv_sku = s, inv_quantity = q\<rparr>],
               inventory_seq := i\<rparr>))"
| "exec (InsertOrder t tot) db =
     (let i = orders_seq db + 1 in
        Inr (i, db\<lparr>orders := orders db @ [\<lparr>o_id = i, o_created_at = t, o_total = tot\<rparr>],
               orders_seq := i\<rparr>))"
| "exec (InsertOrderItem oid mid q p) db =
     (let i = order_items_seq db + 1 in
        Inr (i, db\<lparr>order_items := order_items db @
                 [\<lparr>oi_id = i, oi_order_id = oid, oi_menu_item_id = mid, oi_qty = q,
                   oi_price = p\<rparr>],
               order_items_seq := i\<rparr>))"
| "exec (DecrementInventory q s) db =
     Inr (0, db\<lparr>inventory :=
       map (\<lambda>r. if inv_sku r = s then r\<lparr>inv_quantity := inv_quantity r - q\<rparr> else r)
         (inventory db)\<rparr>)"
| "exec (UpdateMenuItem n d p s a i) db =
     (if i \<in> set (map mi_id (menu_items db)) \<and>
         s \<in> set (map mi_sku (filter (\<lambda>m. mi_id m \<noteq> i) (menu_items db)))
      then Inl IntegrityError
      else Inr (0, db\<lparr>menu_items :=
        map (\<lambda>m. if mi_id m = i
                  then m\<lparr>mi_name := n, mi_description := d, mi_price := p, mi_sku := s,
                         mi_active := a\<rparr>
                  else m)
          (menu_items db)\<rparr>))"
| "exec (DeleteMenuItem i) db =
     Inr (0, db\<lparr>menu_items := filter (\<lambda>m. mi_id m \<noteq> i) (menu_items db)\<rparr>)"

text \<open>
  The connection of one request: the tables, and the storage layer's behaviour during
  the request. \<open>cur.execute\<close> and \<open>db.commit\<close> can raise \<open>sqlite3.OperationalError\<close>
  (a locked database, a full disk); \<open>fault = Some k\<close> says that the storage layer
  raises it in the call of \<open>execute_db\<close> that follows \<open>k\<close> completed calls, and
  \<open>fault = None\<close> that it never does. Reads (\<open>query_db\<close>) are taken to succeed.
\<close>

record 'p conn =
  store :: "'p database"
  fault :: "nat option"

definition tick :: "nat option \<Rightarrow> nat option" where
  "tick f = (case f of None \<Rightarrow> None | Some k \<Rightarrow> Some (k - 1))"

text \<open>
  \<open>execute_db\<close> runs one statement and commits it at once: what it wrote is in the
  tables when it returns. A call that raises leaves the tables as they were.
\<close>

definition execute_db :: "'p stmt \<Rightarrow> 'p conn \<Rightarrow> (py_error + int) \<times> 'p conn" where
  "execute_db q c =
     (if fault c = Some 0 then (Inl OperationalError, c)
      else (case exec q (store c) of
              Inl e \<Rightarrow> (Inl e, c\<lparr>fault := tick (fault c)\<rparr>)
            | Inr (rowid, db') \<Rightarrow> (Inr rowid, \<lparr>store = db', fault = tick (fault c)\<rparr>)))"

text \<open>\<open>SELECT quantity FROM inventory WHERE sku = ?\<close> with \<open>one=True\<close>.\<close>

definition query_quantity :: "'p database \<Rightarrow> string \<Rightarrow> int option" where
  "query_quantity db s = map_option inv_quantity (find (\<lambda>r. inv_sku r = s) (inventory db))"

text \<open>\<open>SELECT * FROM menu_items WHERE active = 1\<close>.\<close>

definition active_menu :: "'p database \<Rightarrow> 'p menu_item list" where
  "active_menu db = filter (\<lambda>m. mi_active m = 1) (menu_items db)"

section \<open>Placing an order\<close>

text \<open>
  The form of the request holds a field \<open>qty_<id>\<close> for a menu item's id. The handler
  reads it with \<open>int(request.form.get(..., 0))\<close>: an absent field reads as 0, a field
  that is not an integer raises \<open>ValueError\<close>.
\<close>

datatype qty_field = Absent | NotAnInt | Qty int

type_synonym form = "int \<Rightarrow> qty_field"

definition read_qty :: "qty_field \<Rightarrow> py_error + int" where
  "read_qty f = (case f of Absent \<Rightarrow> Inr 0 | NotAnInt \<Rightarrow> Inl ValueError | Qty q \<Rightarrow> Inr q)"

text \<open>
  An element of the handler's list \<open>order_items\<close> (\<open>items\<close> below, the table has the
  name): \<open>(id, sku, name, qty, price, subtotal)\<close>.
\<close>

record 'p line =
  ln_id :: int
  ln_sku :: string
  ln_name :: string
  ln_qty :: int
  ln_price :: 'p
  ln_subtotal :: 'p

datatype 'p response =
    NoItemsSelected
  | InsufficientInventory string
  | OrderPlaced int 'p
  | ItemAdded
  | ItemUpdated
  | ItemNotFound
  | ItemDeleted
  | InventoryUpdated
  | SkuMustBeUnique
  | Page
  | Raised py_error

text \<open>The first loop: the lines with a positive quantity, in menu order, and the total.\<close>

fun pricing_loop ::
  "'p arith \<Rightarrow> form \<Rightarrow> 'p menu_item list \<Rightarrow> 'p line list \<times> 'p \<Rightarrow> py_error + ('p line list \<times> 'p)"
where
  "pricing_loop A f [] acc = Inr acc"
| "pricing_loop A f (m # ms) (items, tot) =
     (case read_qty (f (mi_id m)) of
        Inl e \<Rightarrow> Inl e
      | Inr qty \<Rightarrow>
          if qty > 0 then
            let subtotal = fmul A qty (mi_price m) in
            pricing_loop A f ms
              (items @ [\<lparr>ln_id = mi_id m, ln_sku = mi_sku m, ln_name = mi_name m,
                               ln_qty = qty, ln_price = mi_price m, ln_subtotal = subtotal\<rparr>],
               fadd A tot subtotal)
          else pricing_loop A f ms (items, tot))"

text \<open>The inventory check: the name of the first line that the stock does not cover.\<close>

fun check_inventory :: "'p database \<Rightarrow> 'p line list \<Rightarrow> string option" where
  "check_inventory db [] = None"
| "check_inventory db (l # ls) =
     (case query_quantity db (ln_sku l) of
        None \<Rightarrow> Some (ln_name l)
      | Some q \<Rightarrow> if q < ln_qty l then Some (ln_name l) else check_inventory db ls)"

text \<open>The last loop: for each line its \<open>order_items\<close> row, then its decrement.\<close>

fun commit_lines :: "int \<Rightarrow> 'p line list \<Rightarrow> 'p conn \<Rightarrow> py_error option \<times> 'p conn" where
  "commit_lines order_id [] c = (None, c)"
| "commit_lines order_id (l # ls) c =
     (case execute_db (InsertOrderItem order_id (ln_id l) (ln_qty l) (ln_price l)) c of
        (Inl e, c1) \<Rightarrow> (Some e, c1)
      | (Inr _, c1) \<Rightarrow>
          (case execute_db (DecrementInventory (ln_qty l) (ln_sku l)) c1 of
             (Inl e, c2) \<Rightarrow> (Some e, c2)
           | (Inr _, c2) \<Rightarrow> commit_lines order_id ls c2))"

text \<open>
  \<open>place_order\<close>, with \<open>now\<close> for \<open>datetime.now().isoformat()\<close>. An exception that
  the handler does not catch ends the request (\<open>Raised\<close>).
\<close>

definition place_order :: "'p arith \<Rightarrow> string \<Rightarrow> form \<Rightarrow> 'p conn \<Rightarrow> 'p response \<times> 'p conn" where
  "place_order A now f c =
     (case pricing_loop A f (active_menu (store c)) ([], fzero A) of
        Inl e \<Rightarrow> (Raised e, c)
      | Inr (items, tot) \<Rightarrow>
          if items = [] then (NoItemsSelected, c)
          else (case check_inventory (store c) items of
                  Some name \<Rightarrow> (InsufficientInventory name, c)
                | None \<Rightarrow>
                    (case execute_db (InsertOrder now tot) c of
                       (Inl e, c1) \<Rightarrow> (Raised e, c1)
                     | (Inr order_id, c1) \<Rightarrow>
                         (case commit_lines order_id items c1 of
                            (Some e, c2) \<Rightarrow> (Raised e, c2)
                          | (None, c2) \<Rightarrow> (OrderPlaced order_id tot, c2)))))"

section \<open>Viewing an order\<close>

text \<open>
  \<open>view_order\<close>: the order's row, and for each of its \<open>order_items\<close> rows joined with
  the menu item of that id the name, the quantity, the price of the \<open>order_items\<close> row
  and the subtotal that the template computes from the two.
\<close>

record 'p view_line =
  vl_name :: string
  vl_qty :: int
  vl_price :: 'p
  vl_subtotal :: 'p

definition view_items :: "'p arith \<Rightarrow> 'p database \<Rightarrow> int \<Rightarrow> 'p view_line list" where
  "view_items A db order_id =
     concat (map (\<lambda>oi. map (\<lambda>mi. \<lparr>vl_name = mi_name mi, vl_qty = oi_qty oi,
                                    vl_price = oi_price oi,
                                    vl_subtotal = fmul A (oi_qty oi) (oi_price oi)\<rparr>)
                         (filter (\<lambda>mi. mi_id mi = oi_menu_item_id oi) (menu_items db)))
                 (filter (\<lambda>oi. oi_order_id oi = order_id) (order_items db)))"

definition view_order ::
  "'p arith \<Rightarrow> 'p database \<Rightarrow> int \<Rightarrow> ('p order_row \<times> 'p view_line list) option" where
  "view_order A db order_id =
     (case find (\<lambda>r. o_id r = order_id) (orders db) of
        None \<Rightarrow> None
      | Some order \<Rightarrow> Some (order, view_items A db order_id))"

section \<open>The administrative routes\<close>

datatype http_method = GET | POST

text \<open>
  The fields of the item form as the handler holds them in \<open>name\<close>, \<open>desc\<close>, \<open>price\<close>,
  \<open>sku\<close> and \<open>active\<close>, that is after \<open>strip()\<close>, \<open>float()\<close> and \<open>int()\<close>. A request
  whose form cannot be read that way (a field is missing or is not a number) is
  \<open>Inl\<close> of the exception.
\<close>

record 'p item_form =
  f_name :: string
  f_description :: string
  f_price :: 'p
  f_sku :: string
  f_active :: int


definition admin_edit_item ::
  "int \<Rightarrow> http_method \<Rightarrow> py_error + 'p item_form \<Rightarrow> 'p conn \<Rightarrow> 'p response \<times> 'p conn" where
  "admin_edit_item item_id method form c =
     (if find (\<lambda>m. mi_id m = item_id) (menu_items (store c)) = None then (ItemNotFound, c)
      else if method = POST then
        (case form of
           Inl e \<Rightarrow> (Raised e, c)
         | Inr f \<Rightarrow>
             (case execute_db (UpdateMenuItem (f_name f) (f_description f) (f_price f)
                                 (f_sku f) (f_active f) item_id) c of
                (Inl e, c1) \<Rightarrow> (if e = IntegrityError then SkuMustBeUnique else Raised e, c1)
              | (Inr _, c1) \<Rightarrow>
                  (case execute_db (InsertOrIgnoreInventory (f_sku f) 0) c1 of
                     (Inl e, c2) \<Rightarrow> (if e = IntegrityError then SkuMustBeUnique else Raised e, c2)
                   | (Inr _, c2) \<Rightarrow> (ItemUpdated, c2))))
      else (Page, c))"





section \<open>The sample data\<close>

text \<open>
  \<open>seed_if_empty\<close> fills an empty menu with four items and 50 units of each. The
  sample prices are whole numbers, so they are the same numbers in exact arithmetic.
\<close>

definition sample_menu :: "(string \<times> string \<times> real \<times> string \<times> int) list" where
  "sample_menu =
     [(''Espresso'', ''Strong classic espresso'', 80, ''ESP-01'', 1),
      (''Cappuccino'', ''Espresso with steamed milk foam'', 120, ''CAP-01'', 1),
      (''Veg Sandwich'', ''Grilled vegetables with chutney'', 140, ''SND-01'', 1),
      (''Cold Coffee'', ''Iced cold coffee with milk'', 110, ''CFC-01'', 1)]"

fun seed_rows ::
  "(string \<times> string \<times> 'p \<times> string \<times> int) list \<Rightarrow> 'p conn \<Rightarrow> py_error option \<times> 'p conn"
where
  "seed_rows [] c = (None, c)"
| "seed_rows ((name, desc, price, sku, active) # rest) c =
     (case execute_db (InsertMenuItem name desc price sku active) c of
        (Inl e, c1) \<Rightarrow> (Some e, c1)
      | (Inr _, c1) \<Rightarrow>
          (case execute_db (InsertOrIgnoreInventory sku 50) c1 of
             (Inl e, c2) \<Rightarrow> (Some e, c2)
           | (Inr _, c2) \<Rightarrow> seed_rows rest c2))"

definition seed_if_empty :: "real conn \<Rightarrow> py_error option \<times> real conn" where
  "seed_if_empty c =
     (if length (menu_items (store c)) = 0 then seed_rows sample_menu c else (None, c))"

text \<open>The database after the first start of the program.\<close>

definition cafe :: "real database" where
  "cafe = store (snd (seed_if_empty \<lparr>store = init_db, fault = None\<rparr>))"

section \<open>Notions used in the properties\<close>

text \<open>The form in which every entry with a quantity of zero or less is left out.\<close>

definition drop_nonpositive :: "form \<Rightarrow> form" where
  "drop_nonpositive f = (\<lambda>i. case f i of Qty q \<Rightarrow> if q \<le> 0 then Absent else Qty q | x \<Rightarrow> x)"

text \<open>
  The statements that \<open>place_order\<close> passes to \<open>execute_db\<close> once a basket has
  passed the checks, in the order of the calls: the order's row, then for each line its
  \<open>order_items\<close> row and its decrement. \<open>apply_stmts\<close> is what a list of
  statements leaves in the tables when each one is run and committed in turn.
\<close>

definition line_stmts :: "int \<Rightarrow> 'p line \<Rightarrow> 'p stmt list" where
  "line_stmts order_id l =
     [InsertOrderItem order_id (ln_id l) (ln_qty l) (ln_price l),
      DecrementInventory (ln_qty l) (ln_sku l)]"

definition commit_stmts :: "string \<Rightarrow> 'p \<Rightarrow> int \<Rightarrow> 'p line list \<Rightarrow> 'p stmt list" where
  "commit_stmts now tot order_id items =
     InsertOrder now tot # concat (map (line_stmts order_id) items)"

fun apply_stmts :: "'p stmt list \<Rightarrow> 'p database \<Rightarrow> 'p database" where
  "apply_stmts [] db = db"
| "apply_stmts (q # qs) db =
     (case exec q db of Inl e \<Rightarrow> db | Inr (_, db') \<Rightarrow> apply_stmts qs db')"

text \<open>
  Running a list of statements through \<open>execute_db\<close> on a connection whose storage
  layer fails as \<open>fk\<close> says: the exception, if one is raised, and the connection left.
\<close>

definition steps_of :: "'p stmt list \<Rightarrow> 'p database \<Rightarrow> nat option \<Rightarrow> py_error option \<times> 'p conn" where
  "steps_of qs db fk =
     (case fk of
        None \<Rightarrow> (None, \<lparr>store = apply_stmts qs db, fault = None\<rparr>)
      | Some k \<Rightarrow>
          if k < length qs
          then (Some OperationalError, \<lparr>store = apply_stmts (take k qs) db, fault = Some 0\<rparr>)
          else (None, \<lparr>store = apply_stmts qs db, fault = Some (k - length qs)\<rparr>))"

text \<open>
  The basket in the words of the specification: the quantity that the form asks of an
  item, the active items of which it asks a positive quantity, and the sum over these
  of quantity times catalog price, added up in menu order with the arithmetic \<open>A\<close>.
\<close>

definition asked :: "form \<Rightarrow> int \<Rightarrow> int" where
  "asked f i = (case f i of Qty q \<Rightarrow> q | _ \<Rightarrow> 0)"

definition basket :: "form \<Rightarrow> 'p database \<Rightarrow> 'p menu_item list" where
  "basket f db = filter (\<lambda>m. 0 < asked f (mi_id m)) (active_menu db)"

definition basket_total :: "'p arith \<Rightarrow> form \<Rightarrow> 'p database \<Rightarrow> 'p" where
  "basket_total A f db =
     foldl (fadd A) (fzero A) (map (\<lambda>m. fmul A (asked f (mi_id m)) (mi_price m)) (basket f db))"

text \<open>
  The \<open>order_items\<close> rows of an order, and the sum of their subtotals (quantity times
  the price in the row), added up in row order.
\<close>

definition order_lines :: "'p database \<Rightarrow> int \<Rightarrow> 'p order_item list" where
  "order_lines db order_id = filter (\<lambda>oi. oi_order_id oi = order_id) (order_items db)"


text \<open>The handler's line for a menu item, and the rows that a list of lines becomes.\<close>

definition line_of :: "'p arith \<Rightarrow> form \<Rightarrow> 'p menu_item \<Rightarrow> 'p line" where
  "line_of A f m =
     \<lparr>ln_id = mi_id m, ln_sku = mi_sku m, ln_name = mi_name m, ln_qty = asked f (mi_id m),
      ln_price = mi_price m, ln_subtotal = fmul A (asked f (mi_id m)) (mi_price m)\<rparr>"

fun item_rows :: "int \<Rightarrow> int \<Rightarrow> 'p line list \<Rightarrow> 'p order_item list" where
  "item_rows order_id n [] = []"
| "item_rows order_id n (l # ls) =
     \<lparr>oi_id = n + 1, oi_order_id = order_id, oi_menu_item_id = ln_id l, oi_qty = ln_qty l,
      oi_price = ln_price l\<rparr> # item_rows order_id (n + 1) ls"



text \<open>
  The outcome of a request to place an order: accepted with a total, or rejected with
  the response that says why.
\<close>

datatype 'p verdict = Accepted 'p | Rejected "'p response"

fun outcome :: "'p response \<Rightarrow> 'p verdict" where
  "outcome (OrderPlaced order_id tot) = Accepted tot"
| "outcome r = Rejected r"

text \<open>
  What the schema and \<open>AUTOINCREMENT\<close> keep true of the tables: the ids and the
  stock keys of the menu are distinct, as are the stock keys of the inventory, and no id
  in use exceeds its table's counter. The properties below that need a fresh order id or
  distinct stock keys assume the parts of it they need.
\<close>

definition consistent :: "'p database \<Rightarrow> bool" where
  "consistent db \<longleftrightarrow>
     distinct (map mi_id (menu_items db)) \<and>
     list_all (\<lambda>m. mi_id m \<le> menu_items_seq db) (menu_items db) \<and>
     distinct (map mi_sku (menu_items db)) \<and>
     distinct (map inv_sku (inventory db)) \<and>
     list_all (\<lambda>r. o_id r \<le> orders_seq db) (orders db) \<and>
     list_all (\<lambda>oi. oi_order_id oi \<le> orders_seq db) (order_items db)"

text \<open>Example requests against the sample data.\<close>

definition two_espressos :: form where
  "two_espressos = (\<lambda>i. Absent)(1 := Qty 2)"



text \<open>
  The sample data after an order of two espressos, and after the administrator has then
  raised the price of the espresso to 95.
\<close>

definition cafe_after_order :: "real database" where
  "cafe_after_order =
     store (snd (place_order exact ''2026-01-01T09:00:00'' two_espressos
       \<lparr>store = cafe, fault = None\<rparr>))"

definition espresso_95 :: "real item_form" where
  "espresso_95 =
     \<lparr>f_name = ''Espresso'', f_description = ''Strong classic espresso'', f_price = 95,
      f_sku = ''ESP-01'', f_active = 1\<rparr>"

definition cafe_after_price_change :: "real database" where
  "cafe_after_price_change =
     store (snd (admin_edit_item 1 POST (Inr espresso_95)
       \<lparr>store = cafe_after_order, fault = None\<rparr>))"

definition with_unavailable :: form where
  "with_unavailable = (\<lambda>i. Absent)(1 := Qty 2, 4 := Qty 1, 99 := Qty 3)"

definition with_negative :: form where
  "with_negative = (\<lambda>i. Absent)(1 := Qty 2, 2 := Qty (- 1))"

definition all_zero :: form where
  "all_zero = (\<lambda>i. Qty 0)"

text \<open>The sample data after the administrator has set Cold Coffee (item 4) inactive.\<close>

definition cafe_cold_coffee_off :: "real database" where
  "cafe_cold_coffee_off =
     store (snd (admin_edit_item 4 POST
       (Inr \<lparr>f_name = ''Cold Coffee'', f_description = ''Iced cold coffee with milk'',
             f_price = 110, f_sku = ''CFC-01'', f_active = 0\<rparr>)
       \<lparr>store = cafe, fault = None\<rparr>))"

section \<open>The sample data, computed\<close>

lemma cafe_tables:
  "cafe =
     \<lparr>menu_items =
        [\<lparr>mi_id = 1, mi_name = ''Espresso'', mi_description = ''Strong classic espresso'',
          mi_price = 80, mi_sku = ''ESP-01'', mi_active = 1\<rparr>,
         \<lparr>mi_id = 2, mi_name = ''Cappuccino'',
          mi_description = ''Espresso with steamed milk foam'',
          mi_price = 120, mi_sku = ''CAP-01'', mi_active = 1\<rparr>,
         \<lparr>mi_id = 3, mi_name = ''Veg Sandwich'',
          mi_description = ''Grilled vegetables with chutney'',
          mi_price = 140, mi_sku = ''SND-01'', mi_active = 1\<rparr>,
         \<lparr>mi_id = 4, mi_name = ''Cold Coffee'', mi_description = ''Iced cold coffee with milk'',
          mi_price = 110, mi_sku = ''CFC-01'', mi_active = 1\<rparr>],
      menu_items_seq = 4,
      inventory =
        [\<lparr>inv_id = 1, inv_sku = ''ESP-01'', inv_quantity = 50\<rparr>,
         \<lparr>inv_id = 2, inv_sku = ''CAP-01'', inv_quantity = 50\<rparr>,
         \<lparr>inv_id = 3, inv_sku = ''SND-01'', inv_quantity = 50\<rparr>,
         \<lparr>inv_id = 4, inv_sku = ''CFC-01'', inv_quantity = 50\<rparr>],
      inventory_seq = 4,
      orders = [], orders_seq = 0, order_items = [], order_items_seq = 0\<rparr>"
  by (simp add: cafe_def seed_if_empty_def sample_menu_def init_db_def execute_db_def tick_def)

lemmas run_simps = place_order_def active_menu_def query_quantity_def execute_db_def tick_def
  read_qty_def exact_def

lemma cafe_cold_coffee_off_tables:
  "cafe_cold_coffee_off =
     cafe\<lparr>menu_items :=
        [\<lparr>mi_id = 1, mi_name = ''Espresso'', mi_description = ''Strong classic espresso'',
          mi_price = 80, mi_sku = ''ESP-01'', mi_active = 1\<rparr>,
         \<lparr>mi_id = 2, mi_name = ''Cappuccino'',
          mi_description = ''Espresso with steamed milk foam'',
          mi_price = 120, mi_sku = ''CAP-01'', mi_active = 1\<rparr>,
         \<lparr>mi_id = 3, mi_name = ''Veg Sandwich'',
          mi_description = ''Grilled vegetables with chutney'',
          mi_price = 140, mi_sku = ''SND-01'', mi_active = 1\<rparr>,
         \<lparr>mi_id = 4, mi_name = ''Cold Coffee'', mi_description = ''Iced cold coffee with milk'',
          mi_price = 110, mi_sku = ''CFC-01'', mi_active = 0\<rparr>]\<rparr>"
  by (simp add: cafe_cold_coffee_off_def admin_edit_item_def execute_db_def tick_def cafe_tables)

section \<open>The basket that the handler reads\<close>

lemma pricing_loop_cong:
  "\<forall>m\<in>set ms. f (mi_id m) = g (mi_id m) \<Longrightarrow> pricing_loop A f ms acc = pricing_loop A g ms acc"
proof (induction ms arbitrary: acc)
  case Nil
  show ?case by simp
next
  case (Cons m ms)
  obtain items tot where acc: "acc = (items, tot)" by (cases acc)
  from Cons.prems have hd: "f (mi_id m) = g (mi_id m)"
    and tl: "\<forall>m\<in>set ms. f (mi_id m) = g (mi_id m)" by simp_all
  show ?case unfolding acc
    by (simp add: hd Cons.IH [OF tl] split: sum.splits)
qed

text \<open>
  C5 (as amended). \<open>place_order\<close> reads the form only at the ids of the items that are
  active in the catalog: two forms that agree there give the same response and the same
  tables. An entry for an item that does not exist or is inactive is never read, so
  it neither rejects the request nor writes anything.
\<close>

theorem place_order_reads_active_only:
  "\<forall>m\<in>set (active_menu (store c)). f (mi_id m) = g (mi_id m) \<Longrightarrow>
     place_order A now f c = place_order A now g c"
  by (simp add: place_order_def pricing_loop_cong [of _ f g])

theorem place_order_reads_active_only_witness:
  "with_unavailable 4 \<noteq> two_espressos 4 \<and> with_unavailable 99 \<noteq> two_espressos 99 \<and>
   place_order exact ''2026-01-01T09:00:00'' with_unavailable
     \<lparr>store = cafe_cold_coffee_off, fault = None\<rparr> =
   place_order exact ''2026-01-01T09:00:00'' two_espressos
     \<lparr>store = cafe_cold_coffee_off, fault = None\<rparr>"
proof -
  have h: "\<forall>m\<in>set (active_menu (store \<lparr>store = cafe_cold_coffee_off, fault = None\<rparr>)).
      with_unavailable (mi_id m) = two_espressos (mi_id m)"
    by (simp add: active_menu_def cafe_cold_coffee_off_tables cafe_tables with_unavailable_def
        two_espressos_def)
  have d: "with_unavailable 4 \<noteq> two_espressos 4 \<and> with_unavailable 99 \<noteq> two_espressos 99"
    by (simp add: with_unavailable_def two_espressos_def)
  from d place_order_reads_active_only [OF h] show ?thesis by blast
qed

text \<open>
  The claim C5 as stated fails: with Cold Coffee inactive and no item 99, a form that
  asks for both and for two espressos is accepted, and the order is written.
\<close>

theorem place_order_unavailable_counterexample:
  "with_unavailable 4 = Qty 1 \<and> with_unavailable 99 = Qty 3 \<and>
   4 \<notin> mi_id ` set (active_menu cafe_cold_coffee_off) \<and>
   99 \<notin> mi_id ` set (menu_items cafe_cold_coffee_off) \<and>
   fst (place_order exact ''2026-01-01T09:00:00'' with_unavailable
          \<lparr>store = cafe_cold_coffee_off, fault = None\<rparr>) = OrderPlaced 1 160 \<and>
   order_items (store (snd (place_order exact ''2026-01-01T09:00:00'' with_unavailable
          \<lparr>store = cafe_cold_coffee_off, fault = None\<rparr>))) =
     [\<lparr>oi_id = 1, oi_order_id = 1, oi_menu_item_id = 1, oi_qty = 2, oi_price = 80\<rparr>]"
  by (simp add: run_simps cafe_cold_coffee_off_tables cafe_tables with_unavailable_def)

lemma read_qty_drop_nonpositive:
  "read_qty (drop_nonpositive f i) =
     (case read_qty (f i) of Inl e \<Rightarrow> Inl e | Inr q \<Rightarrow> if q \<le> 0 then Inr 0 else Inr q)"
  by (cases "f i") (simp_all add: drop_nonpositive_def read_qty_def)

lemma pricing_loop_drop_nonpositive:
  "pricing_loop A (drop_nonpositive f) ms acc = pricing_loop A f ms acc"
proof (induction ms arbitrary: acc)
  case Nil
  show ?case by simp
next
  case (Cons m ms)
  obtain items tot where acc: "acc = (items, tot)" by (cases acc)
  show ?case unfolding acc
    by (simp add: read_qty_drop_nonpositive Cons.IH split: sum.splits)
qed

text \<open>
  C6 (as amended). An entry whose quantity is zero or less is dropped without an error:
  \<open>place_order\<close> gives the same response and the same tables as for the form
  without these entries.
\<close>

theorem place_order_drops_nonpositive:
  "place_order A now (drop_nonpositive f) c = place_order A now f c"
  by (simp add: place_order_def pricing_loop_drop_nonpositive)

theorem place_order_drops_nonpositive_witness:
  "drop_nonpositive with_negative 2 = Absent \<and>
   place_order exact ''2026-01-01T09:00:00'' (drop_nonpositive with_negative)
     \<lparr>store = cafe, fault = None\<rparr> =
   place_order exact ''2026-01-01T09:00:00'' with_negative \<lparr>store = cafe, fault = None\<rparr>"
  using place_order_drops_nonpositive
    [of exact "''2026-01-01T09:00:00''" with_negative "\<lparr>store = cafe, fault = None\<rparr>"]
  by (simp add: drop_nonpositive_def with_negative_def)

text \<open>
  The claim C6 as stated fails: a form with two espressos and minus one cappuccino is
  not rejected; the order is accepted and holds the espressos only.
\<close>

theorem place_order_negative_quantity_counterexample:
  "with_negative 2 = Qty (- 1) \<and>
   fst (place_order exact ''2026-01-01T09:00:00'' with_negative
          \<lparr>store = cafe, fault = None\<rparr>) = OrderPlaced 1 160 \<and>
   order_items (store (snd (place_order exact ''2026-01-01T09:00:00'' with_negative
          \<lparr>store = cafe, fault = None\<rparr>))) =
     [\<lparr>oi_id = 1, oi_order_id = 1, oi_menu_item_id = 1, oi_qty = 2, oi_price = 80\<rparr>]"
  by (simp add: run_simps cafe_tables with_negative_def)

lemma pricing_loop_nothing:
  "\<forall>m\<in>set ms. f (mi_id m) = Absent \<or> (\<exists>q. f (mi_id m) = Qty q \<and> q \<le> 0) \<Longrightarrow>
     pricing_loop A f ms acc = Inr acc"
proof (induction ms arbitrary: acc)
  case Nil
  show ?case by simp
next
  case (Cons m ms)
  obtain items tot where acc: "acc = (items, tot)" by (cases acc)
  from Cons.prems
  have tl: "\<forall>m\<in>set ms. f (mi_id m) = Absent \<or> (\<exists>q. f (mi_id m) = Qty q \<and> q \<le> 0)"
    by simp
  from Cons.prems have "f (mi_id m) = Absent \<or> (\<exists>q. f (mi_id m) = Qty q \<and> q \<le> 0)"
    by simp
  then show ?case unfolding acc
    by (auto simp: read_qty_def Cons.IH [OF tl])
qed

text \<open>
  C7. When the form holds no positive quantity for any active item (each field is
  absent, zero or negative), \<open>place_order\<close> answers "No items selected" and leaves the
  connection as it was, whatever the inventory table holds: the inventory is not looked
  at.
\<close>

theorem place_order_empty_basket:
  "\<forall>m\<in>set (active_menu (store c)). f (mi_id m) = Absent \<or> (\<exists>q. f (mi_id m) = Qty q \<and> q \<le> 0) \<Longrightarrow>
     place_order A now f c = (NoItemsSelected, c)"
  by (simp add: place_order_def pricing_loop_nothing)

theorem place_order_empty_basket_witness:
  "length (active_menu (store \<lparr>store = cafe\<lparr>inventory := []\<rparr>, fault = Some 0\<rparr>)) = 4 \<and>
   place_order exact ''2026-01-01T09:00:00'' all_zero
     \<lparr>store = cafe\<lparr>inventory := []\<rparr>, fault = Some 0\<rparr> =
   (NoItemsSelected, \<lparr>store = cafe\<lparr>inventory := []\<rparr>, fault = Some 0\<rparr>)"
proof -
  have h: "\<forall>m\<in>set (active_menu (store \<lparr>store = cafe\<lparr>inventory := []\<rparr>, fault = Some 0\<rparr>)).
      all_zero (mi_id m) = Absent \<or> (\<exists>q. all_zero (mi_id m) = Qty q \<and> q \<le> 0)"
    by (simp add: all_zero_def)
  have n: "length (active_menu (store \<lparr>store = cafe\<lparr>inventory := []\<rparr>, fault = Some 0\<rparr>)) = 4"
    by (simp add: active_menu_def cafe_tables)
  from n place_order_empty_basket [OF h] show ?thesis by blast
qed

section \<open>Setting a stock level\<close>





section \<open>The writes of an accepted order, one by one\<close>

lemma execute_db_fault0:
  "execute_db q \<lparr>store = db, fault = Some 0\<rparr> =
     (Inl OperationalError, \<lparr>store = db, fault = Some 0\<rparr>)"
  by (simp add: execute_db_def)

lemma execute_db_order_item:
  "fk \<noteq> Some 0 \<Longrightarrow>
   execute_db (InsertOrderItem oid mid q p) \<lparr>store = db, fault = fk\<rparr> =
     (Inr (order_items_seq db + 1),
      \<lparr>store = apply_stmts [InsertOrderItem oid mid q p] db, fault = tick fk\<rparr>)"
  by (simp add: execute_db_def Let_def)

lemma execute_db_decrement:
  "fk \<noteq> Some 0 \<Longrightarrow>
   execute_db (DecrementInventory q s) \<lparr>store = db, fault = fk\<rparr> =
     (Inr 0, \<lparr>store = apply_stmts [DecrementInventory q s] db, fault = tick fk\<rparr>)"
  by (simp add: execute_db_def)

lemma execute_db_order:
  "fk \<noteq> Some 0 \<Longrightarrow>
   execute_db (InsertOrder now tot) \<lparr>store = db, fault = fk\<rparr> =
     (Inr (orders_seq db + 1),
      \<lparr>store = apply_stmts [InsertOrder now tot] db, fault = tick fk\<rparr>)"
  by (simp add: execute_db_def Let_def)

lemma commit_lines_steps:
  "commit_lines oid ls \<lparr>store = db, fault = fk\<rparr> =
     steps_of (concat (map (line_stmts oid) ls)) db fk"
proof (induction ls arbitrary: db fk)
  case Nil
  show ?case by (simp add: steps_of_def split: option.splits)
next
  case (Cons l ls)
  consider "fk = None" | "fk = Some 0" | "fk = Some 1" | k where "fk = Some (Suc (Suc k))"
    by (metis One_nat_def not0_implies_Suc option.exhaust)
  then show ?case
  proof cases
    case 1
    then show ?thesis
      by (simp add: execute_db_order_item execute_db_decrement tick_def Cons.IH steps_of_def
          line_stmts_def Let_def)
  next
    case 2
    then show ?thesis
      by (simp add: execute_db_fault0 steps_of_def line_stmts_def)
  next
    case 3
    then show ?thesis
      by (simp add: execute_db_order_item execute_db_fault0 tick_def steps_of_def
          line_stmts_def Let_def)
  next
    case 4
    then show ?thesis
      by (simp add: execute_db_order_item execute_db_decrement tick_def Cons.IH steps_of_def
          line_stmts_def Let_def)
  qed
qed

lemma place_order_accepting:
  assumes "pricing_loop A f (active_menu db) ([], fzero A) = Inr (items, tot)"
    and "items \<noteq> []" and "check_inventory db items = None"
  shows "place_order A now f \<lparr>store = db, fault = fk\<rparr> =
     (case steps_of (commit_stmts now tot (orders_seq db + 1) items) db fk of
        (None, c') \<Rightarrow> (OrderPlaced (orders_seq db + 1) tot, c')
      | (Some e, c') \<Rightarrow> (Raised e, c'))"
proof -
  consider "fk = None" | "fk = Some 0" | k where "fk = Some (Suc k)"
    by (metis not0_implies_Suc option.exhaust)
  then show ?thesis
  proof cases
    case 1
    with assms show ?thesis
      by (simp add: place_order_def execute_db_order commit_lines_steps steps_of_def
          commit_stmts_def tick_def Let_def)
  next
    case 2
    with assms show ?thesis
      by (simp add: place_order_def execute_db_fault0 steps_of_def commit_stmts_def)
  next
    case 3
    show ?thesis
    proof (cases "k < length (concat (map (line_stmts (orders_seq db + 1)) items))")
      case True
      with 3 assms show ?thesis
        by (simp add: place_order_def execute_db_order commit_lines_steps steps_of_def
            commit_stmts_def tick_def Let_def)
    next
      case False
      with 3 assms show ?thesis
        by (simp add: place_order_def execute_db_order commit_lines_steps steps_of_def
            commit_stmts_def tick_def Let_def)
    qed
  qed
qed

lemma line_stmts_frame:
  "\<forall>q\<in>set qs. (\<exists>a b c d. q = InsertOrderItem a b c d) \<or> (\<exists>a b. q = DecrementInventory a b) \<Longrightarrow>
     orders (apply_stmts qs db) = orders db \<and> orders_seq (apply_stmts qs db) = orders_seq db \<and>
     menu_items (apply_stmts qs db) = menu_items db"
proof (induction qs arbitrary: db)
  case Nil
  show ?case by simp
next
  case (Cons q qs)
  from Cons.prems
  have tl: "\<forall>q\<in>set qs. (\<exists>a b c d. q = InsertOrderItem a b c d) \<or> (\<exists>a b. q = DecrementInventory a b)"
    by simp
  from Cons.prems
  have "(\<exists>a b c d. q = InsertOrderItem a b c d) \<or> (\<exists>a b. q = DecrementInventory a b)" by simp
  then show ?case
    by (auto simp: Cons.IH [OF tl] Let_def)
qed

lemma line_stmts_shape:
  "\<forall>q\<in>set (concat (map (line_stmts oid) ls)).
     (\<exists>a b c d. q = InsertOrderItem a b c d) \<or> (\<exists>a b. q = DecrementInventory a b)"
  by (auto simp: line_stmts_def)

lemma take_line_stmts_shape:
  "\<forall>q\<in>set (take k (concat (map (line_stmts oid) ls))).
     (\<exists>a b c d. q = InsertOrderItem a b c d) \<or> (\<exists>a b. q = DecrementInventory a b)"
  using line_stmts_shape [of oid ls] by (meson in_set_takeD)






section \<open>The total of an accepted order\<close>

lemma read_qty_asked: "read_qty (f i) = Inr q \<Longrightarrow> asked f i = q"
  by (cases "f i") (simp_all add: read_qty_def asked_def)

lemma pricing_loop_result:
  "pricing_loop A f ms (items, tot) = Inr (items', tot') \<Longrightarrow>
     items' = items @ map (line_of A f) (filter (\<lambda>m. 0 < asked f (mi_id m)) ms) \<and>
     tot' = foldl (fadd A) tot
       (map (\<lambda>m. fmul A (asked f (mi_id m)) (mi_price m)) (filter (\<lambda>m. 0 < asked f (mi_id m)) ms))"
proof (induction ms arbitrary: items tot)
  case Nil
  then show ?case by simp
next
  case (Cons m ms)
  from Cons.prems obtain q where q: "read_qty (f (mi_id m)) = Inr q"
    by (cases "read_qty (f (mi_id m))") simp_all
  have a: "asked f (mi_id m) = q" using q by (rule read_qty_asked)
  show ?case
  proof (cases "0 < q")
    case True
    with Cons.prems q
    have "pricing_loop A f ms (items @ [line_of A f m], fadd A tot (fmul A q (mi_price m))) =
        Inr (items', tot')"
      by (simp add: Let_def line_of_def a)
    from Cons.IH [OF this] True show ?thesis by (simp add: a)
  next
    case False
    with Cons.prems q have "pricing_loop A f ms (items, tot) = Inr (items', tot')" by simp
    from Cons.IH [OF this] False show ?thesis by (simp add: a)
  qed
qed

lemma pricing_loop_basket:
  "pricing_loop A f (active_menu db) ([], fzero A) = Inr (items, tot) \<Longrightarrow>
     items = map (line_of A f) (basket f db) \<and> tot = basket_total A f db"
  using pricing_loop_result [of A f "active_menu db" "[]" "fzero A" items tot]
  by (simp add: basket_def basket_total_def)

lemma place_order_placed:
  assumes "place_order A now f \<lparr>store = db, fault = fk\<rparr> = (OrderPlaced oid tot, c')"
  shows "\<exists>items. pricing_loop A f (active_menu db) ([], fzero A) = Inr (items, tot) \<and>
           items \<noteq> [] \<and> check_inventory db items = None \<and> oid = orders_seq db + 1 \<and>
           store c' = apply_stmts (commit_stmts now tot oid items) db"
proof (cases "pricing_loop A f (active_menu db) ([], fzero A)")
  case (Inl e)
  with assms show ?thesis by (simp add: place_order_def)
next
  case (Inr r)
  obtain items t where r: "r = (items, t)" by (cases r)
  note p = Inr [unfolded r]
  from assms p have ne: "items \<noteq> []"
    by (auto simp: place_order_def)
  from assms p ne have ch: "check_inventory db items = None"
    by (auto simp: place_order_def split: option.splits)
  from assms place_order_accepting [OF p ne ch, of now fk]
  have "t = tot \<and> oid = orders_seq db + 1 \<and>
      store c' = apply_stmts (commit_stmts now t (orders_seq db + 1) items) db"
    by (auto simp: steps_of_def split: option.splits if_splits)
  with p ne ch show ?thesis by auto
qed

lemma apply_line_stmts:
  "apply_stmts (line_stmts oid l @ qs) db =
     apply_stmts qs
       (db\<lparr>order_items := order_items db @
            [\<lparr>oi_id = order_items_seq db + 1, oi_order_id = oid, oi_menu_item_id = ln_id l,
              oi_qty = ln_qty l, oi_price = ln_price l\<rparr>],
          order_items_seq := order_items_seq db + 1,
          inventory :=
            map (\<lambda>r. if inv_sku r = ln_sku l then r\<lparr>inv_quantity := inv_quantity r - ln_qty l\<rparr>
                     else r)
              (inventory db)\<rparr>)"
  by (simp add: line_stmts_def Let_def)

lemma order_items_after_lines:
  "order_items (apply_stmts (concat (map (line_stmts oid) ls)) db) =
     order_items db @ item_rows oid (order_items_seq db) ls"
proof (induction ls arbitrary: db)
  case Nil
  show ?case by simp
next
  case (Cons l ls)
  show ?case by (simp add: apply_line_stmts Cons.IH)
qed

lemma order_items_after_commit:
  "order_items (apply_stmts (commit_stmts now tot oid items) db) =
     order_items db @ item_rows oid (order_items_seq db) items"
  by (simp add: commit_stmts_def Let_def order_items_after_lines)


lemma filter_item_rows:
  "filter (\<lambda>oi. oi_order_id oi = oid) (item_rows oid n ls) = item_rows oid n ls"
  by (induction ls arbitrary: n) simp_all



lemma filter_older:
  "\<forall>x\<in>set xs. g x \<le> (n::int) \<Longrightarrow> filter (\<lambda>x. g x = n + 1) xs = []"
  by (induction xs) auto

lemma order_lines_after_commit:
  assumes "\<forall>oi\<in>set (order_items db). oi_order_id oi \<le> orders_seq db"
  shows "order_lines (apply_stmts (commit_stmts now tot (orders_seq db + 1) items) db)
           (orders_seq db + 1) =
         item_rows (orders_seq db + 1) (order_items_seq db) items"
  using filter_older [OF assms]
  by (simp add: order_lines_def order_items_after_commit filter_item_rows)

text \<open>
  With exact arithmetic the basket's total is the sum of quantity times price.
\<close>

lemma foldl_plus_sum_list: "foldl (\<lambda>a b. a + b) a xs = a + sum_list (xs :: real list)"
  by (induction xs arbitrary: a) simp_all

lemma basket_total_exact:
  "basket_total exact f db = (\<Sum>m\<leftarrow>basket f db. real_of_int (asked f (mi_id m)) * mi_price m)"
  by (simp add: basket_total_def exact_def foldl_plus_sum_list)



section \<open>What the outcome depends on\<close>

lemma check_inventory_cong:
  "inventory db2 = inventory db1 \<Longrightarrow> check_inventory db2 ls = check_inventory db1 ls"
  by (induction ls) (simp_all add: query_quantity_def split: option.splits)

lemma place_order_decision:
  "outcome (fst (place_order A now f \<lparr>store = db, fault = None\<rparr>)) =
     (case pricing_loop A f (active_menu db) ([], fzero A) of
        Inl e \<Rightarrow> Rejected (Raised e)
      | Inr (items, tot) \<Rightarrow>
          if items = [] then Rejected NoItemsSelected
          else (case check_inventory db items of
                  Some name \<Rightarrow> Rejected (InsufficientInventory name)
                | None \<Rightarrow> Accepted tot))"
proof (cases "pricing_loop A f (active_menu db) ([], fzero A)")
  case (Inl e)
  then show ?thesis by (simp add: place_order_def)
next
  case (Inr r)
  obtain items tot where r: "r = (items, tot)" by (cases r)
  note p = Inr [unfolded r]
  show ?thesis
  proof (cases "items = []")
    case True
    with p show ?thesis by (simp add: place_order_def)
  next
    case ne: False
    show ?thesis
    proof (cases "check_inventory db items")
      case (Some name)
      with p ne show ?thesis by (simp add: place_order_def)
    next
      case None
      from place_order_accepting [OF p ne None, of now None] p ne None
      show ?thesis by (simp add: steps_of_def)
    qed
  qed
qed

lemma place_order_menu_items:
  "menu_items (store (snd (place_order A now f \<lparr>store = db, fault = fk\<rparr>))) = menu_items db"
proof (cases "pricing_loop A f (active_menu db) ([], fzero A)")
  case (Inl e)
  then show ?thesis by (simp add: place_order_def)
next
  case (Inr r)
  obtain items tot where r: "r = (items, tot)" by (cases r)
  note p = Inr [unfolded r]
  show ?thesis
  proof (cases "items = []")
    case True
    with p show ?thesis by (simp add: place_order_def)
  next
    case ne: False
    show ?thesis
    proof (cases "check_inventory db items")
      case (Some name)
      with p ne show ?thesis by (simp add: place_order_def)
    next
      case None
      have m: "menu_items (apply_stmts (take k (commit_stmts now tot oid items)) db) = menu_items db"
        for k oid
      proof (cases k)
        case 0
        then show ?thesis by simp
      next
        case (Suc j)
        then show ?thesis
          using line_stmts_frame [OF take_line_stmts_shape, of j oid items]
          by (simp add: commit_stmts_def Let_def)
      qed
      from m [of "length (commit_stmts now tot (orders_seq db + 1) items)" "orders_seq db + 1"]
      have m': "menu_items (apply_stmts (commit_stmts now tot (orders_seq db + 1) items) db) =
          menu_items db" by simp
      show ?thesis
        by (simp add: place_order_accepting [OF p ne None] steps_of_def m m'
            split: option.splits)
    qed
  qed
qed

text \<open>
  C9. Whether \<open>place_order\<close> accepts a basket, with which total, or rejects it, and
  why, depends on the catalog, the inventory and the basket only: two runs on databases
  with the same \<open>menu_items\<close> and \<open>inventory\<close> tables have the same outcome, whatever
  the time of the request and the other tables. In particular, when an attempt was cut
  short by a storage failure and has left the inventory as it was, the same basket
  placed again on the tables it left has the outcome that the first attempt would have
  had without the failure.
\<close>

theorem place_order_outcome_repeatable:
  assumes "menu_items db2 = menu_items db1" and "inventory db2 = inventory db1"
  shows "outcome (fst (place_order A now2 f \<lparr>store = db2, fault = None\<rparr>)) =
           outcome (fst (place_order A now1 f \<lparr>store = db1, fault = None\<rparr>)) \<and>
         (\<forall>k. inventory (store (snd (place_order A now1 f \<lparr>store = db1, fault = Some k\<rparr>))) =
                inventory db1 \<longrightarrow>
              outcome (fst (place_order A now2 f
                \<lparr>store = store (snd (place_order A now1 f \<lparr>store = db1, fault = Some k\<rparr>)),
                 fault = None\<rparr>)) =
              outcome (fst (place_order A now1 f \<lparr>store = db1, fault = None\<rparr>)))"
proof -
  have g: "outcome (fst (place_order A n f \<lparr>store = d, fault = None\<rparr>)) =
      outcome (fst (place_order A n' f \<lparr>store = d', fault = None\<rparr>))"
    if "menu_items d = menu_items d'" and "inventory d = inventory d'" for n n' d d'
    using that check_inventory_cong [of d d']
    by (simp add: place_order_decision active_menu_def split: sum.splits prod.splits)
  show ?thesis
    using g [OF assms] g [OF place_order_menu_items] by blast
qed

theorem place_order_outcome_repeatable_witness:
  "inventory (store (snd (place_order exact ''2026-01-01T09:00:00'' two_espressos
      \<lparr>store = cafe, fault = Some 1\<rparr>))) = inventory cafe \<and>
   fst (place_order exact ''2026-01-01T09:00:00'' two_espressos
      \<lparr>store = cafe, fault = Some 1\<rparr>) = Raised OperationalError \<and>
   outcome (fst (place_order exact ''2026-01-01T09:00:05'' two_espressos
      \<lparr>store = store (snd (place_order exact ''2026-01-01T09:00:00'' two_espressos
                 \<lparr>store = cafe, fault = Some 1\<rparr>)),
       fault = None\<rparr>)) =
   outcome (fst (place_order exact ''2026-01-01T09:00:00'' two_espressos
      \<lparr>store = cafe, fault = None\<rparr>))"
proof -
  have i: "inventory (store (snd (place_order exact ''2026-01-01T09:00:00'' two_espressos
      \<lparr>store = cafe, fault = Some 1\<rparr>))) = inventory cafe"
    by (simp add: run_simps cafe_tables two_espressos_def)
  have r: "fst (place_order exact ''2026-01-01T09:00:00'' two_espressos
      \<lparr>store = cafe, fault = Some 1\<rparr>) = Raised OperationalError"
    by (simp add: run_simps cafe_tables two_espressos_def)
  from place_order_outcome_repeatable [OF refl refl, of exact "''2026-01-01T09:00:05''"
      two_espressos cafe "''2026-01-01T09:00:00''"] i r
  show ?thesis by blast
qed

section \<open>The inventory check\<close>






section \<open>The price of the sale\<close>

lemma update_keeps_ids:
  "map mi_id (map (\<lambda>m. if mi_id m = i
       then m\<lparr>mi_name := n, mi_description := d, mi_price := p, mi_sku := s, mi_active := a\<rparr>
       else m) ms) = map mi_id ms"
  by (induction ms) simp_all

lemma exec_edit_frame:
  "exec (UpdateMenuItem n d p s a i) db = Inr (r, db') \<Longrightarrow>
     orders db' = orders db \<and> order_items db' = order_items db \<and>
     map mi_id (menu_items db') = map mi_id (menu_items db)"
  by (auto simp: update_keeps_ids split: if_splits)

lemma exec_ignore_frame:
  "exec (InsertOrIgnoreInventory s q) db = Inr (r, db') \<Longrightarrow>
     orders db' = orders db \<and> order_items db' = order_items db \<and>
     menu_items db' = menu_items db"
  by (auto simp: Let_def split: if_splits)

lemma execute_db_store:
  "execute_db q c = (res, c') \<Longrightarrow>
     store c' = store c \<or> (\<exists>r. exec q (store c) = Inr (r, store c'))"
  by (auto simp: execute_db_def split: if_splits sum.splits)

lemma admin_edit_item_frame:
  "orders (store (snd (admin_edit_item i meth form c))) = orders (store c) \<and>
   order_items (store (snd (admin_edit_item i meth form c))) = order_items (store c) \<and>
   map mi_id (menu_items (store (snd (admin_edit_item i meth form c)))) =
     map mi_id (menu_items (store c))"
proof -
  have two: "orders (store c2) = orders (store c) \<and> order_items (store c2) = order_items (store c) \<and>
      map mi_id (menu_items (store c2)) = map mi_id (menu_items (store c))"
    if a: "execute_db (UpdateMenuItem n d p s a i) c = (r1, c1)"
      and b: "c2 = c1 \<or> execute_db (InsertOrIgnoreInventory s 0) c1 = (r2, c2)"
    for n d p s a r1 c1 r2 c2
  proof -
    from execute_db_store [OF a] exec_edit_frame
    have 1: "orders (store c1) = orders (store c) \<and> order_items (store c1) = order_items (store c) \<and>
      map mi_id (menu_items (store c1)) = map mi_id (menu_items (store c))"
      by metis
    from b show ?thesis
    proof
      assume "c2 = c1"
      with 1 show ?thesis by simp
    next
      assume "execute_db (InsertOrIgnoreInventory s 0) c1 = (r2, c2)"
      from execute_db_store [OF this] exec_ignore_frame
      have "orders (store c2) = orders (store c1) \<and> order_items (store c2) = order_items (store c1) \<and>
        menu_items (store c2) = menu_items (store c1)"
        by metis
      with 1 show ?thesis by simp
    qed
  qed
  show ?thesis
  proof (cases "find (\<lambda>m. mi_id m = i) (menu_items (store c)) = None \<or> meth \<noteq> POST")
    case True
    then show ?thesis by (auto simp: admin_edit_item_def)
  next
    case False
    show ?thesis
    proof (cases form)
      case (Inl e)
      with False show ?thesis by (simp add: admin_edit_item_def)
    next
      case (Inr f)
      obtain r1 c1 where a: "execute_db (UpdateMenuItem (f_name f) (f_description f) (f_price f)
          (f_sku f) (f_active f) i) c = (r1, c1)" by (metis surj_pair)
      obtain r2 c2 where b: "execute_db (InsertOrIgnoreInventory (f_sku f) 0) c1 = (r2, c2)"
        by (metis surj_pair)
      have s: "snd (admin_edit_item i meth form c) = c1 \<or> snd (admin_edit_item i meth form c) = c2"
        using False Inr a b by (auto simp: admin_edit_item_def split: sum.splits)
      from s show ?thesis
      proof
        assume e: "snd (admin_edit_item i meth form c) = c1"
        from two [OF a, of c1] show ?thesis by (simp add: e)
      next
        assume e: "snd (admin_edit_item i meth form c) = c2"
        from b have "c2 = c1 \<or> execute_db (InsertOrIgnoreInventory (f_sku f) 0) c1 = (r2, c2)"
          by simp
        from two [OF a this] show ?thesis by (simp add: e)
      qed
    qed
  qed
qed

lemma view_items_columns:
  "map (\<lambda>v. (vl_qty v, vl_price v, vl_subtotal v)) (view_items A db oid) =
     concat (map (\<lambda>oi. map (\<lambda>i. (oi_qty oi, oi_price oi, fmul A (oi_qty oi) (oi_price oi)))
                        (filter (\<lambda>i. i = oi_menu_item_id oi) (map mi_id (menu_items db))))
                 (order_lines db oid))"
  by (simp add: view_items_def order_lines_def map_concat comp_def filter_map)

lemma view_order_row:
  "map_option fst (view_order A db oid) = find (\<lambda>r. o_id r = oid) (orders db)"
  by (simp add: view_order_def split: option.splits)

lemma placed_rows:
  assumes "\<forall>oi\<in>set (order_items db). oi_order_id oi \<le> orders_seq db"
    and "place_order A now f \<lparr>store = db, fault = fk\<rparr> = (OrderPlaced oid tot, c')"
  shows "order_lines (store c') oid =
           item_rows oid (order_items_seq db) (map (line_of A f) (basket f db))"
proof -
  from place_order_placed [OF assms(2)] obtain items where
    p: "pricing_loop A f (active_menu db) ([], fzero A) = Inr (items, tot)" and
    oid: "oid = orders_seq db + 1" and
    st: "store c' = apply_stmts (commit_stmts now tot oid items) db"
    by blast
  from pricing_loop_basket [OF p] have items: "items = map (line_of A f) (basket f db)" by simp
  show ?thesis
    unfolding st oid using order_lines_after_commit [OF assms(1)] by (simp add: items)
qed

lemma item_rows_from_basket:
  "oi \<in> set (item_rows oid n (map (line_of A f) ms)) \<Longrightarrow>
     \<exists>m\<in>set ms. mi_id m = oi_menu_item_id oi \<and> mi_price m = oi_price oi"
  by (induction ms arbitrary: n) (auto simp: line_of_def)

text \<open>
  C8. The \<open>order_items\<close> rows of an accepted order carry, for their menu item, the
  catalog price at the time of the order. A later request to edit a menu item, whatever
  it changes and however it ends, leaves the \<open>orders\<close> and \<open>order_items\<close> tables as
  they were. The order view then shows the same order row, with its total, and the same
  quantities, prices and subtotals as before the edit, and every price and subtotal it
  shows is the price of an \<open>order_items\<close> row of the order and the product of that
  row's quantity and price.
\<close>

theorem order_keeps_price_of_sale:
  assumes "\<forall>oi\<in>set (order_items db). oi_order_id oi \<le> orders_seq db"
    and "place_order A now f \<lparr>store = db, fault = fk\<rparr> = (OrderPlaced oid tot, c1)"
    and "admin_edit_item item_id meth form \<lparr>store = store c1, fault = fk'\<rparr> = (r, c2)"
  shows "(\<forall>oi\<in>set (order_lines (store c1) oid).
            \<exists>m\<in>set (active_menu db). mi_id m = oi_menu_item_id oi \<and> mi_price m = oi_price oi) \<and>
         order_items (store c2) = order_items (store c1) \<and>
         orders (store c2) = orders (store c1) \<and>
         map_option fst (view_order A (store c2) oid) = map_option fst (view_order A (store c1) oid) \<and>
         map (\<lambda>v. (vl_qty v, vl_price v, vl_subtotal v)) (view_items A (store c2) oid) =
           map (\<lambda>v. (vl_qty v, vl_price v, vl_subtotal v)) (view_items A (store c1) oid) \<and>
         (\<forall>v\<in>set (view_items A (store c2) oid).
            \<exists>oi\<in>set (order_lines (store c1) oid).
              vl_qty v = oi_qty oi \<and> vl_price v = oi_price oi \<and>
              vl_subtotal v = fmul A (oi_qty oi) (oi_price oi))"
proof -
  have a: "\<forall>oi\<in>set (order_lines (store c1) oid).
      \<exists>m\<in>set (active_menu db). mi_id m = oi_menu_item_id oi \<and> mi_price m = oi_price oi"
    unfolding placed_rows [OF assms(1,2)]
    using item_rows_from_basket [of _ oid "order_items_seq db" A f "basket f db"]
    by (auto simp: basket_def)
  from admin_edit_item_frame [of item_id meth form "\<lparr>store = store c1, fault = fk'\<rparr>"] assms(3)
  have fr: "orders (store c2) = orders (store c1)" "order_items (store c2) = order_items (store c1)"
    "map mi_id (menu_items (store c2)) = map mi_id (menu_items (store c1))"
    by simp_all
  have ol: "order_lines (store c2) oid = order_lines (store c1) oid"
    by (simp add: order_lines_def fr)
  have v: "map (\<lambda>v. (vl_qty v, vl_price v, vl_subtotal v)) (view_items A (store c2) oid) =
      map (\<lambda>v. (vl_qty v, vl_price v, vl_subtotal v)) (view_items A (store c1) oid)"
    by (simp only: view_items_columns fr ol)
  have w: "\<forall>v\<in>set (view_items A (store c2) oid).
      \<exists>oi\<in>set (order_lines (store c1) oid).
        vl_qty v = oi_qty oi \<and> vl_price v = oi_price oi \<and>
        vl_subtotal v = fmul A (oi_qty oi) (oi_price oi)"
    by (auto simp: view_items_def order_lines_def fr)
  from a fr(1,2) v w show ?thesis by (simp add: view_order_row)
qed

lemma cafe_after_order_tables:
  "cafe_after_order =
     cafe\<lparr>inventory :=
            [\<lparr>inv_id = 1, inv_sku = ''ESP-01'', inv_quantity = 48\<rparr>,
             \<lparr>inv_id = 2, inv_sku = ''CAP-01'', inv_quantity = 50\<rparr>,
             \<lparr>inv_id = 3, inv_sku = ''SND-01'', inv_quantity = 50\<rparr>,
             \<lparr>inv_id = 4, inv_sku = ''CFC-01'', inv_quantity = 50\<rparr>],
          orders := [\<lparr>o_id = 1, o_created_at = ''2026-01-01T09:00:00'', o_total = 160\<rparr>],
          orders_seq := 1,
          order_items :=
            [\<lparr>oi_id = 1, oi_order_id = 1, oi_menu_item_id = 1, oi_qty = 2, oi_price = 80\<rparr>],
          order_items_seq := 1\<rparr>"
  by (simp add: cafe_after_order_def run_simps cafe_tables two_espressos_def)

theorem order_keeps_price_of_sale_witness:
  "map mi_price (filter (\<lambda>m. mi_id m = 1) (menu_items cafe_after_price_change)) = [95] \<and>
   map (\<lambda>v. (vl_qty v, vl_price v, vl_subtotal v)) (view_items exact cafe_after_price_change 1) =
     [(2, 80, 160)] \<and>
   map_option fst (view_order exact cafe_after_price_change 1) =
     Some \<lparr>o_id = 1, o_created_at = ''2026-01-01T09:00:00'', o_total = 160\<rparr>"
proof -
  let ?c1 = "snd (place_order exact ''2026-01-01T09:00:00'' two_espressos
    \<lparr>store = cafe, fault = None\<rparr>)"
  let ?e = "admin_edit_item 1 POST (Inr espresso_95) \<lparr>store = store ?c1, fault = None\<rparr>"
  have h1: "\<forall>oi\<in>set (order_items cafe). oi_order_id oi \<le> orders_seq cafe"
    by (simp add: cafe_tables)
  have "fst (place_order exact ''2026-01-01T09:00:00'' two_espressos
      \<lparr>store = cafe, fault = None\<rparr>) = OrderPlaced 1 160"
    by (simp add: run_simps cafe_tables two_espressos_def)
  then have h2: "place_order exact ''2026-01-01T09:00:00'' two_espressos
      \<lparr>store = cafe, fault = None\<rparr> = (OrderPlaced 1 160, ?c1)"
    by (metis prod.collapse)
  have h3: "?e = (fst ?e, snd ?e)" by simp
  have c2: "store (snd (admin_edit_item 1 POST (Inr espresso_95)
      \<lparr>store = cafe_after_order, fault = None\<rparr>)) = cafe_after_price_change"
    by (simp add: cafe_after_price_change_def)
  have c1: "store ?c1 = cafe_after_order" by (simp add: cafe_after_order_def)
  have p: "map mi_price (filter (\<lambda>m. mi_id m = 1) (menu_items cafe_after_price_change)) = [95]"
    by (simp add: cafe_after_price_change_def cafe_after_order_tables cafe_tables
        admin_edit_item_def execute_db_def tick_def espresso_95_def)
  have v: "map (\<lambda>v. (vl_qty v, vl_price v, vl_subtotal v)) (view_items exact cafe_after_order 1) =
      [(2, 80, 160)]"
    by (simp add: view_items_def cafe_after_order_tables cafe_tables exact_def)
  have w: "map_option fst (view_order exact cafe_after_order 1) =
      Some \<lparr>o_id = 1, o_created_at = ''2026-01-01T09:00:00'', o_total = 160\<rparr>"
    by (simp add: view_order_def cafe_after_order_tables cafe_tables)
  note t = order_keeps_price_of_sale [OF h1 h2 h3, unfolded c1 c2]
  from t have "map (\<lambda>v. (vl_qty v, vl_price v, vl_subtotal v))
      (view_items exact cafe_after_price_change 1) =
    map (\<lambda>v. (vl_qty v, vl_price v, vl_subtotal v)) (view_items exact cafe_after_order 1)"
    by blast
  moreover from t have "map_option fst (view_order exact cafe_after_price_change 1) =
    map_option fst (view_order exact cafe_after_order 1)"
    by blast
  ultimately show ?thesis using p v w by simp
qed

section \<open>The stock never goes below zero by an order\<close>

lemma decrement_skus:
  "map inv_sku (map (\<lambda>r. if inv_sku r = s then r\<lparr>inv_quantity := inv_quantity r - q\<rparr> else r) xs) =
     map inv_sku xs"
  by (induction xs) simp_all









section \<open>The stock and the routes\<close>










section \<open>The tables stay consistent\<close>

lemma update_keeps_skus_distinct:
  assumes "distinct (map mi_id ms)" and "distinct (map mi_sku ms)"
    and "s \<notin> set (map mi_sku (filter (\<lambda>m. mi_id m \<noteq> i) ms))"
  shows "distinct (map mi_sku (map (\<lambda>m. if mi_id m = i
       then m\<lparr>mi_name := n, mi_description := d, mi_price := p, mi_sku := s, mi_active := a\<rparr>
       else m) ms))"
  using assms
proof (induction ms)
  case Nil
  then show ?case by simp
next
  case (Cons x xs)
  let ?u = "\<lambda>m. if mi_id m = i
       then m\<lparr>mi_name := n, mi_description := d, mi_price := p, mi_sku := s, mi_active := a\<rparr>
       else m"
  from Cons.prems have di: "distinct (map mi_id xs)" and ds: "distinct (map mi_sku xs)"
    and xi: "mi_id x \<notin> mi_id ` set xs" and xs: "mi_sku x \<notin> mi_sku ` set xs" by simp_all
  show ?case
  proof (cases "mi_id x = i")
    case True
    with xi have no: "\<forall>m\<in>set xs. mi_id m \<noteq> i" by (auto simp: image_iff)
    then have same: "map ?u xs = xs" by (induction xs) simp_all
    from no have f: "filter (\<lambda>m. mi_id m \<noteq> i) xs = xs" by (induction xs) simp_all
    from Cons.prems(3) True f have "s \<notin> mi_sku ` set xs" by simp
    with ds True show ?thesis by (simp add: same)
  next
    case False
    with Cons.prems(3) have sx: "s \<noteq> mi_sku x"
      and st: "s \<notin> set (map mi_sku (filter (\<lambda>m. mi_id m \<noteq> i) xs))" by simp_all
    have "mi_sku x \<notin> set (map mi_sku (map ?u xs))"
    proof
      assume "mi_sku x \<in> set (map mi_sku (map ?u xs))"
      then obtain m where m: "m \<in> set xs" and e: "mi_sku x = mi_sku (?u m)" by auto
      show False
      proof (cases "mi_id m = i")
        case True
        with e sx show False by simp
      next
        case False
        with e m xs show False by (auto simp: image_iff)
      qed
    qed
    with Cons.IH [OF di ds st] False show ?thesis by (simp del: map_map set_map)
  qed
qed

lemma ids_bounded:
  "list_all (\<lambda>m. mi_id m \<le> n) ms = list_all (\<lambda>i. i \<le> n) (map mi_id ms)"
  by (induction ms) simp_all

lemma exec_consistent:
  assumes "exec q db = Inr (r, db')" and "consistent db"
    and "\<forall>oid mid n p. q = InsertOrderItem oid mid n p \<longrightarrow> oid \<le> orders_seq db"
  shows "consistent db'"
proof (cases q)
  case (InsertMenuItem n d p s a)
  from assms(2) have "\<forall>m\<in>set (menu_items db). mi_id m \<noteq> menu_items_seq db + 1"
    by (auto simp: consistent_def list_all_iff)
  then have "menu_items_seq db + 1 \<notin> mi_id ` set (menu_items db)" by (auto simp: image_iff)
  moreover from assms(2)
  have "\<forall>m\<in>set (menu_items db). mi_id m \<le> menu_items_seq db + 1"
    by (fastforce simp: consistent_def list_all_iff)
  ultimately show ?thesis using assms(1,2) InsertMenuItem
    by (auto simp: consistent_def list_all_iff Let_def split: if_splits)
next
  case (InsertOrIgnoreInventory s n)
  with assms(1,2) show ?thesis
    by (auto simp: consistent_def Let_def split: if_splits)
next
  case (InsertOrReplaceInventory s n)
  with assms(1,2) show ?thesis
    by (auto simp: consistent_def Let_def distinct_map_filter)
next
  case (InsertOrder t tot)
  from assms(2) have "\<forall>r\<in>set (orders db). o_id r \<le> orders_seq db + 1"
    "\<forall>oi\<in>set (order_items db). oi_order_id oi \<le> orders_seq db + 1"
    by (fastforce simp: consistent_def list_all_iff)+
  with assms(1,2) InsertOrder show ?thesis
    by (auto simp: consistent_def list_all_iff Let_def)
next
  case (InsertOrderItem oid mid n p)
  with assms show ?thesis
    by (auto simp: consistent_def list_all_iff Let_def)
next
  case (DecrementInventory n s)
  with assms(1,2) decrement_skus [of s n "inventory db"] show ?thesis
    by (auto simp: consistent_def simp del: map_map)
next
  case (UpdateMenuItem n d p s a i)
  show ?thesis
  proof (cases "i \<in> set (map mi_id (menu_items db))")
    case True
    with assms(1) UpdateMenuItem
    have ns: "s \<notin> set (map mi_sku (filter (\<lambda>m. mi_id m \<noteq> i) (menu_items db)))"
      by (auto split: if_splits)
    from assms(2) have "distinct (map mi_id (menu_items db))" "distinct (map mi_sku (menu_items db))"
      by (simp_all add: consistent_def)
    from update_keeps_skus_distinct [OF this ns, where n = n and d = d and p = p and a = a]
    have sk: "distinct (map mi_sku (menu_items db'))"
      using assms(1) UpdateMenuItem by (auto split: if_splits)
    have ids: "map mi_id (menu_items db') = map mi_id (menu_items db)"
      using exec_edit_frame [OF assms(1) [unfolded UpdateMenuItem]] by simp
    from assms(2) ids have di: "distinct (map mi_id (menu_items db'))" by (simp add: consistent_def)
    from assms(2) have "list_all (\<lambda>m. mi_id m \<le> menu_items_seq db) (menu_items db)"
      by (simp add: consistent_def)
    then have bd: "list_all (\<lambda>m. mi_id m \<le> menu_items_seq db) (menu_items db')"
      by (simp add: ids_bounded [of _ "menu_items db'"] ids ids_bounded [of _ "menu_items db", symmetric])
    from assms(1) UpdateMenuItem have e: "menu_items_seq db' = menu_items_seq db"
      "inventory db' = inventory db" "orders db' = orders db" "orders_seq db' = orders_seq db"
      "order_items db' = order_items db"
      by (auto split: if_splits)
    from assms(2) have rest: "distinct (map inv_sku (inventory db))"
      "list_all (\<lambda>r. o_id r \<le> orders_seq db) (orders db)"
      "list_all (\<lambda>oi. oi_order_id oi \<le> orders_seq db) (order_items db)"
      by (simp_all add: consistent_def)
    show ?thesis
      unfolding consistent_def e using di bd sk rest by blast
  next
    case False
    then have "\<forall>m\<in>set (menu_items db). mi_id m \<noteq> i" by (auto simp: image_iff)
    then have "map (\<lambda>m. if mi_id m = i
       then m\<lparr>mi_name := n, mi_description := d, mi_price := p, mi_sku := s, mi_active := a\<rparr>
       else m) (menu_items db) = menu_items db"
      by (simp add: map_idI)
    with assms(1) UpdateMenuItem False have "db' = db" by simp
    with assms(2) show ?thesis by simp
  qed
next
  case (DeleteMenuItem i)
  with assms(1,2) show ?thesis
    by (auto simp: consistent_def list_all_iff distinct_map_filter)
qed

end
